theory Spec2Isabelle
  imports Main "HOL-Library.Char_ord" "HOL-Library.List_Lexorder" "HOL-Library.Multiset"
begin

section \<open>Strings as the script uses them\<close>

text \<open>
  A Python \<open>str\<close> is modelled as a \<open>string\<close> whose characters are the code points
  below 256 (Latin-1). On these, \<open>str.lower()\<close> maps \<open>A\<close> to \<open>Z\<close> and the letters
  \<open>0xC0\<close> to \<open>0xDE\<close>, the multiplication sign \<open>0xD7\<close> apart, to the code point 32
  higher, and leaves every other character as it is. The order on strings is the
  lexicographic order by code point, which is how Python compares \<open>str\<close> values and
  path components.
\<close>

definition lower_char :: "char \<Rightarrow> char" where
  "lower_char c =
     (if (CHR ''A'' \<le> c \<and> c \<le> CHR ''Z'') \<or> (CHR 0xC0 \<le> c \<and> c \<le> CHR 0xDE \<and> c \<noteq> CHR 0xD7)
      then char_of (of_char c + (32::nat)) else c)"

definition lower :: "string \<Rightarrow> string" where
  \<comment> \<open>\<open>s.lower()\<close>\<close>
  "lower s = map lower_char s"

fun startswith :: "string \<Rightarrow> string \<Rightarrow> bool" where
  "startswith t [] = True"
| "startswith [] (p # ps) = False"
| "startswith (c # cs) (p # ps) = (c = p \<and> startswith cs ps)"

fun py_in :: "string \<Rightarrow> string \<Rightarrow> bool" where
  \<comment> \<open>\<open>k in t\<close> on two strings: \<open>k\<close> occurs in \<open>t\<close> as a contiguous substring\<close>
  "py_in k [] = (k = [])"
| "py_in k (c # cs) = (startswith (c # cs) k \<or> py_in k cs)"

definition NL :: char where
  "NL = CHR 0x0A"

definition ESC :: char where
  "ESC = CHR 0x1B"

fun join :: "string \<Rightarrow> string list \<Rightarrow> string" where
  \<comment> \<open>\<open>sep.join(parts)\<close>\<close>
  "join sep [] = []"
| "join sep [p] = p"
| "join sep (p # q # ps) = p @ sep @ join sep (q # ps)"

definition py_print :: "string list \<Rightarrow> string" where
  \<comment> \<open>what \<open>print(a, b, ...)\<close> writes to standard output\<close>
  "py_print objs = join '' '' objs @ [NL]"

section \<open>Module constants\<close>

definition RED :: string where
  "RED = ESC # ''[31m''"

definition BOLD :: string where
  "BOLD = ESC # ''[1m''"

definition END_COLOR :: string where
  "END_COLOR = ESC # ''[0m''"

definition SPACING :: string where
  "SPACING = ''==================''"

section \<open>\<open>_test_matching_keywords\<close>\<close>

fun key_match :: "string \<Rightarrow> string list \<Rightarrow> bool" where
  \<comment> \<open>the inner loop over \<open>texts\<close>: stops at the first text that contains the key\<close>
  "key_match key [] = False"
| "key_match key (text # texts) =
     (if py_in (lower key) (lower text) then True else key_match key texts)"

definition np_all :: "bool list \<Rightarrow> bool" where
  \<comment> \<open>\<open>np.all\<close> of a list of booleans; true of the empty list\<close>
  "np_all bs = list_all (\<lambda>b. b) bs"

definition test_matching_keywords :: "string list \<Rightarrow> string list \<Rightarrow> bool" where
  "test_matching_keywords keywords texts =
     np_all (map (\<lambda>key. key_match key texts) keywords)"

section \<open>The highlighting substitution\<close>

text \<open>
  \<open>kw_subs\<close> holds, for each keyword, the pattern \<open>'(' + re.escape(kw) + ')'\<close> compiled
  with \<open>re.IGNORECASE\<close>: one group that matches the keyword's characters literally, up to
  case. Under \<open>re.IGNORECASE\<close> a character of the text matches a character of the
  pattern when the two have the same lower case; on code points below 256 this lower case
  is the one of \<open>str.lower()\<close>. \<open>new_key\<close> is the template
  \<open>RED + BOLD + '\\1' + END_COLOR\<close>, which expands to the matched group between the two
  markers.
\<close>

definition new_key :: "string \<Rightarrow> string" where
  "new_key g = RED @ BOLD @ g @ END_COLOR"

definition match_here :: "string \<Rightarrow> string \<Rightarrow> bool" where
  \<comment> \<open>the pattern of keyword \<open>kw\<close> matches at the start of \<open>text\<close>\<close>
  "match_here kw text =
     (length kw \<le> length text \<and> lower (take (length kw) text) = lower kw)"

function re_sub :: "string \<Rightarrow> string \<Rightarrow> string" where
  \<comment> \<open>\<open>regex.sub(new_key, text)\<close>: the leftmost non-overlapping matches are replaced,
      scanning from the left; the empty pattern matches before every character and at
      the end\<close>
  "re_sub kw text =
     (if kw = [] then
        (case text of [] \<Rightarrow> new_key [] | c # cs \<Rightarrow> new_key [] @ c # re_sub kw cs)
      else if match_here kw text then
        new_key (take (length kw) text) @ re_sub kw (drop (length kw) text)
      else
        (case text of [] \<Rightarrow> [] | c # cs \<Rightarrow> c # re_sub kw cs))"
  by pat_completeness auto
termination
proof (relation "measure (\<lambda>(kw, text). length text)", goal_cases)
  case 1
  show ?case by simp
next
  case (2 kw t c cs)
  then show ?case by simp
next
  case (3 kw t)
  then have "0 < length kw" "length kw \<le> length t"
    by (simp_all add: match_here_def)
  then have "length t - length kw < length t"
    by arith
  then show ?case by simp
next
  case (4 kw t c cs)
  then show ?case by simp
qed

declare re_sub.simps [simp del]

fun subs_loop :: "string list \<Rightarrow> string \<times> string \<Rightarrow> string \<times> string" where
  \<comment> \<open>\<open>for regex in kw_subs:\<close> on the pair \<open>(filename, search_text)\<close>\<close>
  "subs_loop [] (filename, search_text) = (filename, search_text)"
| "subs_loop (kw # kws) (filename, search_text) =
     subs_loop kws (re_sub kw filename, re_sub kw search_text)"

section \<open>\<open>_get_docstring\<close>\<close>

datatype exn = OSError | UnicodeDecodeError | SyntaxError | SystemExit

text \<open>
  \<open>ast.get_docstring(module)\<close> is called with its default \<open>clean=True\<close>: the standard
  library returns \<open>None\<close> when the module's first statement is not a string constant, and
  \<open>inspect.cleandoc\<close> of that constant otherwise. \<open>cleandoc\<close> expands tabs, strips the
  first line on the left, removes the common indentation of the other lines, and removes
  leading and trailing empty lines.
\<close>

fun expandtabs :: "nat \<Rightarrow> string \<Rightarrow> string" where
  \<comment> \<open>\<open>str.expandtabs()\<close> (tab size 8), from column \<open>col\<close>\<close>
  "expandtabs col [] = []"
| "expandtabs col (c # cs) =
     (if c = CHR 0x09 then
        replicate (8 - col mod 8) CHR '' '' @ expandtabs (col + (8 - col mod 8)) cs
      else if c = NL \<or> c = CHR 0x0D then c # expandtabs 0 cs
      else c # expandtabs (col + 1) cs)"

fun split_lines :: "string \<Rightarrow> string list" where
  \<comment> \<open>\<open>s.split('\n')\<close>\<close>
  "split_lines [] = [[]]"
| "split_lines (c # cs) =
     (if c = NL then [] # split_lines cs
      else (case split_lines cs of [] \<Rightarrow> [[c]] | l # ls \<Rightarrow> (c # l) # ls))"

definition isspace :: "char \<Rightarrow> bool" where
  \<comment> \<open>the white space that \<open>str.lstrip()\<close> removes, among the code points below 256\<close>
  "isspace c = (c \<in> set [CHR '' '', CHR 0x09, CHR 0x0A, CHR 0x0B, CHR 0x0C, CHR 0x0D,
                          CHR 0x1C, CHR 0x1D, CHR 0x1E, CHR 0x1F, CHR 0x85, CHR 0xA0])"

definition lstrip :: "string \<Rightarrow> string" where
  "lstrip s = dropWhile isspace s"

fun find_margin :: "string list \<Rightarrow> nat option \<Rightarrow> nat option" where
  \<comment> \<open>the loop over \<open>lines[1:]\<close>; \<open>None\<close> stands for \<open>sys.maxsize\<close>\<close>
  "find_margin [] margin = margin"
| "find_margin (line # lines) margin =
     (let content = length (lstrip line) in
      if content \<noteq> 0 then
        (let indent = length line - content in
         find_margin lines (case margin of None \<Rightarrow> Some indent | Some m \<Rightarrow> Some (min m indent)))
      else find_margin lines margin)"

fun pop_trailing :: "string list \<Rightarrow> string list" where
  \<comment> \<open>\<open>while lines and not lines[-1]: lines.pop()\<close>\<close>
  "pop_trailing [] = []"
| "pop_trailing (l # ls) =
     (case pop_trailing ls of [] \<Rightarrow> (if l = [] then [] else [l]) | r # rs \<Rightarrow> l # r # rs)"

definition cleandoc :: "string \<Rightarrow> string" where
  "cleandoc doc =
     (case split_lines (expandtabs 0 doc) of
        [] \<Rightarrow> []
      | first # rest \<Rightarrow>
          (let margin = find_margin rest None;
               first' = lstrip first;
               rest' = (case margin of None \<Rightarrow> rest | Some m \<Rightarrow> map (drop m) rest)
           in join [NL] (dropWhile (\<lambda>l. l = []) (pop_trailing (first' # rest')))))"

definition ast_get_docstring :: "string option \<Rightarrow> string option" where
  \<comment> \<open>the argument is the module's leading string constant, if it has one\<close>
  "ast_get_docstring node = map_option cleandoc node"

definition get_docstring :: "exn + string option \<Rightarrow> exn + string" where
  \<comment> \<open>the argument is what opening, reading and \<open>ast.parse\<close> give for the path: an
      exception, or the parsed module, of which only the leading string constant matters.
      \<open>ast.get_docstring(module) or ''\<close> turns both \<open>None\<close> and the empty string into
      the empty string\<close>
  "get_docstring parsed =
     (case parsed of
        Inl e \<Rightarrow> Inl e
      | Inr module \<Rightarrow>
          (case ast_get_docstring module of
             None \<Rightarrow> Inr []
           | Some docstring \<Rightarrow> Inr docstring))"

section \<open>\<open>main\<close>\<close>

record script =
  name :: string
  parsed :: "exn + string option"
  help_print :: "exn + string"

text \<open>
  A \<open>script\<close> is one path of \<open>script_dir.glob('*.py')\<close>: its file name, what reading and
  parsing it gives (fast mode), and what reading the output of \<open>script --help\<close> gives
  (with \<open>--search_parser\<close>).
\<close>

record run_state =
  stdout :: string
  matches :: "string list"

definition init_state :: run_state where
  "init_state = \<lparr>stdout = [], matches = []\<rparr>"

definition fetch_text :: "bool \<Rightarrow> script \<Rightarrow> exn + string" where
  "fetch_text search_parser sc =
     (if search_parser then help_print sc else get_docstring (parsed sc))"

definition report :: "string list \<Rightarrow> string \<Rightarrow> string \<Rightarrow> string" where
  \<comment> \<open>lines 64 to 74: the placeholder, the substitutions, the three prints\<close>
  "report kws filename search_text =
     (let search_text1 = (if search_text = [] then ''No docstring available!'' else search_text);
          (filename', search_text') = subs_loop kws (filename, search_text1)
      in py_print [SPACING, filename', SPACING]
         @ py_print [search_text']
         @ py_print [SPACING, ''End of '' @ filename', SPACING])"

fun scan :: "string list \<Rightarrow> bool \<Rightarrow> script list \<Rightarrow> run_state \<Rightarrow> exn option \<times> run_state" where
  \<comment> \<open>the \<open>for script in sorted(...)\<close> loop; an exception ends it\<close>
  "scan kws sp [] st = (None, st)"
| "scan kws sp (sc # scs) st =
     (case fetch_text sp sc of
        Inl e \<Rightarrow> (Some e, st)
      | Inr search_text \<Rightarrow>
          if \<not> test_matching_keywords kws [name sc, search_text] then scan kws sp scs st
          else scan kws sp scs
                 (st\<lparr>matches := matches st @ [name sc],
                     stdout := stdout st @ report kws (name sc) search_text\<rparr>))"

definition main :: "string list \<Rightarrow> bool \<Rightarrow> script list \<Rightarrow> exn option \<times> run_state" where
  \<comment> \<open>\<open>keywords\<close> has \<open>nargs='+'\<close>: the parser exits when no keyword is given. \<open>scripts\<close>
      is the directory listing in the order the file system enumerates it\<close>
  "main kws sp scripts =
     (if kws = [] then (Some SystemExit, init_state)
      else
        (case scan kws sp (sort_key name scripts) init_state of
           (Some e, st) \<Rightarrow> (Some e, st)
         | (None, st) \<Rightarrow>
             (None, if matches st = [] then st\<lparr>stdout := stdout st @ py_print [''No results found!'']\<rparr>
                    else st)))"

section \<open>Lines of a docstring\<close>

text \<open>
  Not part of the script: \<open>text_line l\<close> says that \<open>l\<close> is a line of text as a
  docstring usually has them, that is, not empty, starting with a character that is not
  white space, and without tab or newline. It is used to state what the cleaning of a
  docstring does to such lines.
\<close>

definition text_line :: "string \<Rightarrow> bool" where
  "text_line l = (l \<noteq> [] \<and> \<not> isspace (hd l) \<and> CHR 0x09 \<notin> set l \<and> NL \<notin> set l)"

section \<open>Reading of the highlighting requirement\<close>



section \<open>Substring test and keyword matching\<close>

lemma startswith_iff: "startswith t p \<longleftrightarrow> (\<exists>s. t = p @ s)"
  by (induction t p rule: startswith.induct) auto

lemma py_in_iff: "py_in k t \<longleftrightarrow> (\<exists>p s. t = p @ k @ s)"
proof (induction t)
  case Nil
  show ?case by auto
next
  case (Cons c cs)
  show ?case
  proof
    assume "py_in k (c # cs)"
    then consider "startswith (c # cs) k" | "py_in k cs" by auto
    then show "\<exists>p s. c # cs = p @ k @ s"
    proof cases
      case 1
      then obtain s where "c # cs = k @ s" by (auto simp: startswith_iff)
      then have "c # cs = [] @ k @ s" by simp
      then show ?thesis by blast
    next
      case 2
      then obtain p s where "cs = p @ k @ s" using Cons.IH by blast
      then have "c # cs = (c # p) @ k @ s" by simp
      then show ?thesis by blast
    qed
  next
    assume "\<exists>p s. c # cs = p @ k @ s"
    then obtain p s where eq: "c # cs = p @ k @ s" by blast
    show "py_in k (c # cs)"
    proof (cases p)
      case Nil
      with eq have "startswith (c # cs) k" by (auto simp: startswith_iff simp del: startswith.simps)
      then show ?thesis by simp
    next
      case (Cons a p')
      with eq have "cs = p' @ k @ s" by simp
      then have "py_in k cs" using Cons.IH by blast
      then show ?thesis by simp
    qed
  qed
qed

lemma key_match_iff: "key_match key texts \<longleftrightarrow> (\<exists>t\<in>set texts. py_in (lower key) (lower t))"
  by (induction texts) auto

lemma test_matching_keywords_iff:
  "test_matching_keywords kws texts \<longleftrightarrow> (\<forall>k\<in>set kws. \<exists>t\<in>set texts. py_in (lower k) (lower t))"
  by (simp add: test_matching_keywords_def np_all_def list_all_iff key_match_iff)

section \<open>The scan\<close>

lemma subs_loop_foldl:
  "subs_loop kws (f, t) = (foldl (\<lambda>x kw. re_sub kw x) f kws, foldl (\<lambda>x kw. re_sub kw x) t kws)"
  by (induction kws arbitrary: f t) auto

lemma scan_fst:
  "fst (scan kws sp scs st) =
     (case dropWhile (\<lambda>sc. \<not> isl (fetch_text sp sc)) scs of
        [] \<Rightarrow> None | sc # _ \<Rightarrow> Some (projl (fetch_text sp sc)))"
  by (induction scs arbitrary: st) (auto split: sum.splits)

lemma scan_snd:
  "snd (scan kws sp scs st) =
     (let hits = filter (\<lambda>sc. test_matching_keywords kws [name sc, projr (fetch_text sp sc)])
                   (takeWhile (\<lambda>sc. \<not> isl (fetch_text sp sc)) scs)
      in st\<lparr>matches := matches st @ map name hits,
            stdout := stdout st @ concat (map (\<lambda>sc. report kws (name sc) (projr (fetch_text sp sc))) hits)\<rparr>)"
  by (induction scs arbitrary: st) (auto split: sum.splits simp: Let_def)

lemma main_unfold:
  "kws \<noteq> [] \<Longrightarrow>
   main kws sp scripts =
     (let r = scan kws sp (sort_key name scripts) init_state in
      (fst r, if fst r = None \<and> matches (snd r) = []
              then (snd r)\<lparr>stdout := stdout (snd r) @ py_print [''No results found!'']\<rparr>
              else snd r))"
  by (auto simp: main_def Let_def split: prod.splits option.splits)

lemma dropWhile_all: "\<forall>x\<in>set xs. P x \<Longrightarrow> dropWhile P xs = []"
  by (induction xs) auto

lemma takeWhile_all: "\<forall>x\<in>set xs. P x \<Longrightarrow> takeWhile P xs = xs"
  by (induction xs) auto

lemma scan_complete:
  assumes "\<forall>sc\<in>set scs. \<not> isl (fetch_text sp sc)"
  shows "scan kws sp scs st =
     (None, st\<lparr>matches := matches st @ map name (filter (\<lambda>sc. test_matching_keywords kws [name sc, projr (fetch_text sp sc)]) scs),
            stdout := stdout st @ concat (map (\<lambda>sc. report kws (name sc) (projr (fetch_text sp sc)))
                (filter (\<lambda>sc. test_matching_keywords kws [name sc, projr (fetch_text sp sc)]) scs))\<rparr>)"
proof -
  have "fst (scan kws sp scs st) = None"
    using assms by (simp add: scan_fst dropWhile_all)
  moreover have "snd (scan kws sp scs st) = snd (None :: exn option, st\<lparr>matches := matches st @ map name (filter (\<lambda>sc. test_matching_keywords kws [name sc, projr (fetch_text sp sc)]) scs),
            stdout := stdout st @ concat (map (\<lambda>sc. report kws (name sc) (projr (fetch_text sp sc)))
                (filter (\<lambda>sc. test_matching_keywords kws [name sc, projr (fetch_text sp sc)]) scs))\<rparr>)"
    using assms by (simp add: scan_snd takeWhile_all Let_def)
  ultimately show ?thesis
    by (simp add: prod_eq_iff)
qed

lemma scan_abort:
  assumes "\<forall>x\<in>set pre. \<not> isl (fetch_text sp x)" and "fetch_text sp sc = Inl e"
  shows "scan kws sp (pre @ sc # post) st = (Some e, snd (scan kws sp pre st))"
  using assms by (induction pre arbitrary: st) (auto split: sum.splits)

lemma first_raise:
  assumes "x \<in> set xs" and "isl (fetch_text sp x)"
  shows "\<exists>pre sc post. xs = pre @ sc # post \<and> (\<forall>y\<in>set pre. \<not> isl (fetch_text sp y)) \<and> isl (fetch_text sp sc)"
proof -
  from assms have "\<exists>y\<in>set xs. isl (fetch_text sp y)" by blast
  then obtain pre sc post where "xs = pre @ sc # post" "isl (fetch_text sp sc)" "\<forall>y\<in>set pre. \<not> isl (fetch_text sp y)"
    by (auto simp: split_list_first_prop_iff)
  then show ?thesis by blast
qed

lemma in_text_iff:
  "test_matching_keywords kws [f, t] \<longleftrightarrow>
     (\<forall>k\<in>set kws. (\<exists>p s. lower f = p @ lower k @ s) \<or> (\<exists>p s. lower t = p @ lower k @ s))"
  by (simp add: test_matching_keywords_iff py_in_iff)

lemma main_complete:
  assumes "kws \<noteq> []" and "\<forall>sc\<in>set scripts. \<not> isl (fetch_text sp sc)"
  shows "main kws sp scripts =
     (None,
      \<lparr>stdout =
         (if filter (\<lambda>sc. test_matching_keywords kws [name sc, projr (fetch_text sp sc)]) (sort_key name scripts) = []
          then py_print [''No results found!'']
          else concat (map (\<lambda>sc. report kws (name sc) (projr (fetch_text sp sc)))
                 (filter (\<lambda>sc. test_matching_keywords kws [name sc, projr (fetch_text sp sc)]) (sort_key name scripts)))),
       matches = map name (filter (\<lambda>sc. test_matching_keywords kws [name sc, projr (fetch_text sp sc)]) (sort_key name scripts))\<rparr>)"
proof -
  have "\<forall>sc\<in>set (sort_key name scripts). \<not> isl (fetch_text sp sc)"
    using assms(2) by simp
  then show ?thesis
    using assms(1) by (simp add: main_unfold scan_complete init_state_def Let_def)
qed

section \<open>Properties of the run\<close>

text \<open>
  C9. For the empty keyword list the matching test is true of any texts, so a scan with
  no keyword would report every discovered script; \<open>main\<close> never gets there, because
  the argument parser requires at least one keyword and exits.
\<close>

theorem no_keyword_matches_everything:
  "test_matching_keywords [] texts
   \<and> main [] sp scripts = (Some SystemExit, init_state)
   \<and> ((\<forall>sc\<in>set scripts. \<not> isl (fetch_text sp sc)) \<longrightarrow>
        matches (snd (scan [] sp scripts init_state)) = map name scripts)"
  by (simp add: test_matching_keywords_def np_all_def main_def scan_complete init_state_def)

text \<open>
  C10. The decision to report a script is taken on its original file name and its
  extracted text, and the name recorded in \<open>matches\<close> is the original one; the
  highlighting substitutions happen inside the printed block of an accepted script only.
  So which scripts are reported, and in which order, does not depend on the highlighting
  nor on what has been printed before.
\<close>

theorem decision_on_original_strings:
  "matches (snd (main kws sp scripts)) =
     (if kws = [] then []
      else map name
       (filter (\<lambda>sc. test_matching_keywords kws [name sc, projr (fetch_text sp sc)])
          (takeWhile (\<lambda>sc. \<not> isl (fetch_text sp sc)) (sort_key name scripts))))
   \<and> matches (snd (scan kws sp scs st)) =
     matches st @ map name
       (filter (\<lambda>sc. test_matching_keywords kws [name sc, projr (fetch_text sp sc)])
          (takeWhile (\<lambda>sc. \<not> isl (fetch_text sp sc)) scs))
   \<and> stdout (snd (scan kws sp scs st)) =
     stdout st @ concat (map (\<lambda>sc. report kws (name sc) (projr (fetch_text sp sc)))
       (filter (\<lambda>sc. test_matching_keywords kws [name sc, projr (fetch_text sp sc)])
          (takeWhile (\<lambda>sc. \<not> isl (fetch_text sp sc)) scs)))"
  by (simp add: scan_snd Let_def main_unfold) (simp add: main_def init_state_def)

lemma fetch_text_raises:
  "isl (fetch_text sp sc) \<longleftrightarrow> (if sp then isl (help_print sc) else isl (parsed sc))"
  by (auto simp: fetch_text_def get_docstring_def split: sum.splits option.splits)

lemma fetch_text_Inl:
  "fetch_text sp sc = Inl e \<longleftrightarrow> (if sp then help_print sc = Inl e else parsed sc = Inl e)"
  by (auto simp: fetch_text_def get_docstring_def split: sum.splits option.splits)

text \<open>
  C7. Extraction errors are not caught: if parsing some script (fast mode) or reading
  the help output of some script (slow mode) raises, the run ends with the exception of
  the first such script in sorted order, and only the scripts before it have been
  processed. No later script is examined and the no-results line is not printed.
\<close>

theorem extraction_error_aborts:
  assumes "kws \<noteq> []" and "sc \<in> set scripts"
    and "if sp then isl (help_print sc) else isl (parsed sc)"
  shows "\<exists>pre bad post e.
           sort_key name scripts = pre @ bad # post
         \<and> (\<forall>x\<in>set pre. \<not> isl (fetch_text sp x))
         \<and> (if sp then help_print bad = Inl e else parsed bad = Inl e)
         \<and> main kws sp scripts = (Some e, snd (scan kws sp pre init_state))"
proof -
  have "sc \<in> set (sort_key name scripts)" "isl (fetch_text sp sc)"
    using assms(2,3) by (simp_all add: fetch_text_raises)
  then obtain pre bad post where split: "sort_key name scripts = pre @ bad # post"
    and ok: "\<forall>y\<in>set pre. \<not> isl (fetch_text sp y)" and bad: "isl (fetch_text sp bad)"
    using first_raise by blast
  from bad obtain e where e: "fetch_text sp bad = Inl e"
    by (cases "fetch_text sp bad") auto
  have "scan kws sp (sort_key name scripts) init_state = (Some e, snd (scan kws sp pre init_state))"
    unfolding split using ok e by (rule scan_abort)
  then have m: "main kws sp scripts = (Some e, snd (scan kws sp pre init_state))"
    using assms(1) by (simp add: main_def)
  have f: "if sp then help_print bad = Inl e else parsed bad = Inl e"
    using e by (simp only: fetch_text_Inl)
  from split ok f m show ?thesis
    by blast
qed

theorem extraction_error_aborts_witness:
  "[''dti''] \<noteq> []
   \<and> \<lparr>name = ''a.py'', parsed = Inl SyntaxError, help_print = Inr ''''\<rparr>
       \<in> set [\<lparr>name = ''b.py'', parsed = Inr (Some ''DTI map''), help_print = Inr ''usage''\<rparr>,
              \<lparr>name = ''a.py'', parsed = Inl SyntaxError, help_print = Inr ''''\<rparr>]
   \<and> (if False then isl (help_print \<lparr>name = ''a.py'', parsed = Inl SyntaxError, help_print = Inr ''''\<rparr>)
        else isl (parsed \<lparr>name = ''a.py'', parsed = Inl SyntaxError, help_print = Inr ''''\<rparr>))
   \<and> fst (main [''dti''] False
         [\<lparr>name = ''b.py'', parsed = Inr (Some ''DTI map''), help_print = Inr ''usage''\<rparr>,
          \<lparr>name = ''a.py'', parsed = Inl SyntaxError, help_print = Inr ''''\<rparr>]) \<noteq> None
   \<and> main [''dti''] False
         [\<lparr>name = ''b.py'', parsed = Inr (Some ''DTI map''), help_print = Inr ''usage''\<rparr>,
          \<lparr>name = ''a.py'', parsed = Inl SyntaxError, help_print = Inr ''''\<rparr>]
       = (Some SyntaxError, \<lparr>stdout = [], matches = []\<rparr>)"
proof -
  let ?B = "\<lparr>name = ''b.py'', parsed = Inr (Some ''DTI map''), help_print = Inr ''usage''\<rparr>"
  let ?A = "\<lparr>name = ''a.py'', parsed = Inl SyntaxError, help_print = Inr ''''\<rparr>"
  have k: "[''dti''] \<noteq> []"
    by simp
  have m: "?A \<in> set [?B, ?A]"
    by simp
  have r: "if False then isl (help_print ?A) else isl (parsed ?A)"
    by simp
  from extraction_error_aborts [OF k m r]
  have ab: "fst (main [''dti''] False [?B, ?A]) \<noteq> None"
    by auto
  have ev: "main [''dti''] False [?B, ?A] = (Some SyntaxError, \<lparr>stdout = [], matches = []\<rparr>)"
    by code_simp
  from k m r ab ev show ?thesis
    by (intro conjI)
qed

theorem no_keyword_matches_everything_witness:
  "test_matching_keywords [] [''b.py'', ''DTI map'']
   \<and> main [] False
         [\<lparr>name = ''b.py'', parsed = Inr (Some ''DTI map''), help_print = Inr ''usage''\<rparr>,
          \<lparr>name = ''a.py'', parsed = Inr None, help_print = Inr ''''\<rparr>]
       = (Some SystemExit, init_state)
   \<and> \<not> isl (fetch_text False \<lparr>name = ''b.py'', parsed = Inr (Some ''DTI map''), help_print = Inr ''usage''\<rparr>)
   \<and> \<not> isl (fetch_text False \<lparr>name = ''a.py'', parsed = Inr None, help_print = Inr ''''\<rparr>)
   \<and> matches (snd (scan [] False
         [\<lparr>name = ''b.py'', parsed = Inr (Some ''DTI map''), help_print = Inr ''usage''\<rparr>,
          \<lparr>name = ''a.py'', parsed = Inr None, help_print = Inr ''''\<rparr>] init_state))
       = [''b.py'', ''a.py'']"
proof -
  let ?B = "\<lparr>name = ''b.py'', parsed = Inr (Some ''DTI map''), help_print = Inr ''usage''\<rparr>"
  let ?A = "\<lparr>name = ''a.py'', parsed = Inr None, help_print = Inr ''''\<rparr>"
  have b: "\<not> isl (fetch_text False ?B)" and a: "\<not> isl (fetch_text False ?A)"
    by (simp_all add: fetch_text_def get_docstring_def ast_get_docstring_def)
  then have ok: "\<forall>sc\<in>set [?B, ?A]. \<not> isl (fetch_text False sc)"
    by simp
  from no_keyword_matches_everything [of "[''b.py'', ''DTI map'']" False "[?B, ?A]"] ok a b
  show ?thesis
    by simp
qed

section \<open>Docstring extraction\<close>

lemma expandtabs_no_tab: "CHR 0x09 \<notin> set d \<Longrightarrow> expandtabs col d = d"
  by (induction d arbitrary: col) auto

lemma split_lines_no_newline: "NL \<notin> set d \<Longrightarrow> split_lines d = [d]"
  by (induction d) auto

lemma cleandoc_one_line:
  assumes "CHR 0x09 \<notin> set d" and "NL \<notin> set d" and "lstrip d = d"
  shows "cleandoc d = d"
  using assms by (cases "d = []") (simp_all add: cleandoc_def expandtabs_no_tab split_lines_no_newline)

section \<open>Highlighting\<close>

lemma py_in_Nil: "py_in [] t"
  by (induction t) auto

lemma match_here_py_in: "match_here kw t \<Longrightarrow> py_in (lower kw) (lower t)"
proof -
  assume "match_here kw t"
  then have "lower (take (length kw) t) = lower kw"
    by (simp add: match_here_def)
  moreover have "lower t = lower (take (length kw) t) @ lower (drop (length kw) t)"
    unfolding lower_def by (simp flip: map_append)
  ultimately have "lower t = [] @ lower kw @ lower (drop (length kw) t)"
    by simp
  then show ?thesis
    unfolding py_in_iff by blast
qed

lemma re_sub_absent: "\<not> py_in (lower kw) (lower t) \<Longrightarrow> re_sub kw t = t"
proof (induction t)
  case Nil
  have "kw \<noteq> []"
    using Nil.prems py_in_Nil by (auto simp: lower_def)
  moreover have "\<not> match_here kw []"
    using Nil.prems match_here_py_in by blast
  ultimately show ?case
    by (simp add: re_sub.simps)
next
  case (Cons c cs)
  have "kw \<noteq> []"
    using Cons.prems py_in_Nil by (auto simp: lower_def)
  moreover have "\<not> match_here kw (c # cs)"
    using Cons.prems match_here_py_in by blast
  moreover have "\<not> py_in (lower kw) (lower cs)"
    using Cons.prems by (simp add: lower_def)
  ultimately show ?case
    using Cons.IH by (simp add: re_sub.simps)
qed

lemma foldl_re_sub_absent:
  "\<forall>k\<in>set kws. \<not> py_in (lower k) (lower t) \<Longrightarrow> foldl (\<lambda>x kw. re_sub kw x) t kws = t"
  by (induction kws) (simp_all add: re_sub_absent)

text \<open>
  C6 (amended). For a matching script whose extracted text is empty, the text that is
  highlighted and printed is the placeholder \<open>No docstring available!\<close>: the block is
  the same as for a script whose text is the placeholder. The printed body is the
  placeholder itself when no keyword occurs in the placeholder (up to case).
\<close>

theorem placeholder_goes_through_highlighting:
  "report kws filename [] = report kws filename ''No docstring available!''
   \<and> ((\<forall>k\<in>set kws. \<not> py_in (lower k) (lower ''No docstring available!'')) \<longrightarrow>
        report kws filename [] =
          py_print [SPACING, fst (subs_loop kws (filename, [])), SPACING]
          @ py_print [''No docstring available!'']
          @ py_print [SPACING, ''End of '' @ fst (subs_loop kws (filename, [])), SPACING])"
  by (simp add: report_def subs_loop_foldl foldl_re_sub_absent)

theorem placeholder_goes_through_highlighting_witness:
  "\<not> py_in (lower ''scil'') (lower ''No docstring available!'')
   \<and> report [''scil''] ''scil_x.py'' [] =
          py_print [SPACING, fst (subs_loop [''scil''] (''scil_x.py'', [])), SPACING]
          @ py_print [''No docstring available!'']
          @ py_print [SPACING, ''End of '' @ fst (subs_loop [''scil''] (''scil_x.py'', [])), SPACING]"
proof -
  have a: "\<not> py_in (lower ''scil'') (lower ''No docstring available!'')"
    by code_simp
  then have "\<forall>k\<in>set [''scil'']. \<not> py_in (lower k) (lower ''No docstring available!'')"
    by simp
  with placeholder_goes_through_highlighting [of "[''scil'']" "''scil_x.py''"] a show ?thesis
    by blast
qed

text \<open>
  With the keyword \<open>a\<close>, the script \<open>a.py\<close> without docstring matches by its name, and
  the three occurrences of the keyword in the placeholder are printed with markers.
\<close>

theorem placeholder_not_printed_as_is:
  "fetch_text False \<lparr>name = ''a.py'', parsed = Inr None, help_print = Inr ''''\<rparr> = Inr []
   \<and> test_matching_keywords [''a''] [''a.py'', []]
   \<and> stdout (snd (main [''a''] False [\<lparr>name = ''a.py'', parsed = Inr None, help_print = Inr ''''\<rparr>])) =
        py_print [SPACING, new_key ''a'' @ ''.py'', SPACING]
        @ py_print [''No docstring '' @ new_key ''a'' @ ''v'' @ new_key ''a'' @ ''il'' @ new_key ''a'' @ ''ble!'']
        @ py_print [SPACING, ''End of '' @ new_key ''a'' @ ''.py'', SPACING]
   \<and> ''No docstring '' @ new_key ''a'' @ ''v'' @ new_key ''a'' @ ''il'' @ new_key ''a'' @ ''ble!''
       \<noteq> ''No docstring available!''"
  by code_simp






section \<open>Runs, aborted or not\<close>

lemma main_general:
  assumes "kws \<noteq> []"
  shows "main kws sp scripts =
     ((case dropWhile (\<lambda>sc. \<not> isl (fetch_text sp sc)) (sort_key name scripts) of
         [] \<Rightarrow> None | sc # _ \<Rightarrow> Some (projl (fetch_text sp sc))),
      \<lparr>stdout =
         concat (map (\<lambda>sc. report kws (name sc) (projr (fetch_text sp sc)))
           (filter (\<lambda>sc. test_matching_keywords kws [name sc, projr (fetch_text sp sc)])
              (takeWhile (\<lambda>sc. \<not> isl (fetch_text sp sc)) (sort_key name scripts))))
         @ (if dropWhile (\<lambda>sc. \<not> isl (fetch_text sp sc)) (sort_key name scripts) = []
               \<and> filter (\<lambda>sc. test_matching_keywords kws [name sc, projr (fetch_text sp sc)])
                    (takeWhile (\<lambda>sc. \<not> isl (fetch_text sp sc)) (sort_key name scripts)) = []
            then py_print [''No results found!''] else []),
       matches = map name
           (filter (\<lambda>sc. test_matching_keywords kws [name sc, projr (fetch_text sp sc)])
              (takeWhile (\<lambda>sc. \<not> isl (fetch_text sp sc)) (sort_key name scripts)))\<rparr>)"
proof -
  define r where "r = scan kws sp (sort_key name scripts) init_state"
  define d where "d = dropWhile (\<lambda>sc. \<not> isl (fetch_text sp sc)) (sort_key name scripts)"
  define hits where "hits = filter (\<lambda>sc. test_matching_keywords kws [name sc, projr (fetch_text sp sc)])
              (takeWhile (\<lambda>sc. \<not> isl (fetch_text sp sc)) (sort_key name scripts))"
  have m: "main kws sp scripts =
      (fst r, if fst r = None \<and> matches (snd r) = []
              then (snd r)\<lparr>stdout := stdout (snd r) @ py_print [''No results found!'']\<rparr>
              else snd r)"
    using assms by (simp add: main_unfold Let_def r_def)
  have f: "fst r = (case d of [] \<Rightarrow> None | sc # _ \<Rightarrow> Some (projl (fetch_text sp sc)))"
    by (simp add: r_def d_def scan_fst)
  have s: "snd r = \<lparr>stdout = concat (map (\<lambda>sc. report kws (name sc) (projr (fetch_text sp sc))) hits),
                     matches = map name hits\<rparr>"
    by (simp add: r_def hits_def scan_snd Let_def init_state_def)
  have n: "fst r = None \<longleftrightarrow> d = []"
    by (simp add: f split: list.splits)
  have "main kws sp scripts =
     ((case d of [] \<Rightarrow> None | sc # _ \<Rightarrow> Some (projl (fetch_text sp sc))),
      \<lparr>stdout = concat (map (\<lambda>sc. report kws (name sc) (projr (fetch_text sp sc))) hits)
         @ (if d = [] \<and> hits = [] then py_print [''No results found!''] else []),
       matches = map name hits\<rparr>)"
    unfolding m n unfolding f s by simp
  then show ?thesis
    unfolding d_def hits_def .
qed

lemma main_completes_iff:
  assumes "kws \<noteq> []"
  shows "fst (main kws sp scripts) = None \<longleftrightarrow> (\<forall>sc\<in>set scripts. \<not> isl (fetch_text sp sc))"
proof -
  define d where "d = dropWhile (\<lambda>sc. \<not> isl (fetch_text sp sc)) (sort_key name scripts)"
  have "fst (main kws sp scripts) = (case d of [] \<Rightarrow> None | sc # _ \<Rightarrow> Some (projl (fetch_text sp sc)))"
    unfolding d_def by (simp add: main_general [OF assms])
  then have "fst (main kws sp scripts) = None \<longleftrightarrow> d = []"
    by (cases d) simp_all
  then show ?thesis
    by (simp add: d_def dropWhile_eq_Nil_conv)
qed

lemma main_state:
  assumes "kws \<noteq> []"
  shows "snd (main kws sp scripts) =
      \<lparr>stdout =
         concat (map (\<lambda>sc. report kws (name sc) (projr (fetch_text sp sc)))
           (filter (\<lambda>sc. test_matching_keywords kws [name sc, projr (fetch_text sp sc)])
              (takeWhile (\<lambda>sc. \<not> isl (fetch_text sp sc)) (sort_key name scripts))))
         @ (if fst (main kws sp scripts) = None
               \<and> filter (\<lambda>sc. test_matching_keywords kws [name sc, projr (fetch_text sp sc)])
                    (takeWhile (\<lambda>sc. \<not> isl (fetch_text sp sc)) (sort_key name scripts)) = []
            then py_print [''No results found!''] else []),
       matches = map name
           (filter (\<lambda>sc. test_matching_keywords kws [name sc, projr (fetch_text sp sc)])
              (takeWhile (\<lambda>sc. \<not> isl (fetch_text sp sc)) (sort_key name scripts)))\<rparr>"
proof -
  have "fst (main kws sp scripts) = None \<longleftrightarrow>
          dropWhile (\<lambda>sc. \<not> isl (fetch_text sp sc)) (sort_key name scripts) = []"
    by (simp add: main_completes_iff [OF assms] dropWhile_eq_Nil_conv)
  then show ?thesis
    unfolding main_general [OF assms] by (simp only: snd_conv)
qed

text \<open>
  C1 (amended). In every run with at least one keyword, the scripts of the report are
  exactly the scripts that come, in the sorted listing, before the first script whose
  extraction raises, and for which every keyword is, up to case, a contiguous substring
  of the file name or of the extracted text. The output consists of their blocks, in
  that order. When no extraction raises, these are all the discovered scripts with that
  property.
\<close>

theorem reported_iff_found_and_reached:
  assumes "kws \<noteq> []"
  shows "matches (snd (main kws sp scripts)) =
           map name (filter (\<lambda>sc. \<forall>k\<in>set kws.
                        (\<exists>p s. lower (name sc) = p @ lower k @ s) \<or>
                        (\<exists>p s. lower (projr (fetch_text sp sc)) = p @ lower k @ s))
                      (takeWhile (\<lambda>sc. \<not> isl (fetch_text sp sc)) (sort_key name scripts)))
       \<and> stdout (snd (main kws sp scripts)) =
           concat (map (\<lambda>sc. report kws (name sc) (projr (fetch_text sp sc)))
                   (filter (\<lambda>sc. \<forall>k\<in>set kws.
                        (\<exists>p s. lower (name sc) = p @ lower k @ s) \<or>
                        (\<exists>p s. lower (projr (fetch_text sp sc)) = p @ lower k @ s))
                      (takeWhile (\<lambda>sc. \<not> isl (fetch_text sp sc)) (sort_key name scripts))))
           @ (if fst (main kws sp scripts) = None
                 \<and> filter (\<lambda>sc. \<forall>k\<in>set kws.
                        (\<exists>p s. lower (name sc) = p @ lower k @ s) \<or>
                        (\<exists>p s. lower (projr (fetch_text sp sc)) = p @ lower k @ s))
                      (takeWhile (\<lambda>sc. \<not> isl (fetch_text sp sc)) (sort_key name scripts)) = []
              then py_print [''No results found!''] else [])
       \<and> ((\<forall>sc\<in>set scripts. \<not> isl (fetch_text sp sc)) \<longrightarrow>
            fst (main kws sp scripts) = None
          \<and> matches (snd (main kws sp scripts)) =
              map name (filter (\<lambda>sc. \<forall>k\<in>set kws.
                        (\<exists>p s. lower (name sc) = p @ lower k @ s) \<or>
                        (\<exists>p s. lower (projr (fetch_text sp sc)) = p @ lower k @ s))
                      (sort_key name scripts)))"
proof (intro conjI impI)
  show "matches (snd (main kws sp scripts)) =
           map name (filter (\<lambda>sc. \<forall>k\<in>set kws.
                        (\<exists>p s. lower (name sc) = p @ lower k @ s) \<or>
                        (\<exists>p s. lower (projr (fetch_text sp sc)) = p @ lower k @ s))
                      (takeWhile (\<lambda>sc. \<not> isl (fetch_text sp sc)) (sort_key name scripts)))"
    by (simp add: main_state [OF assms] in_text_iff)
  show "stdout (snd (main kws sp scripts)) =
           concat (map (\<lambda>sc. report kws (name sc) (projr (fetch_text sp sc)))
                   (filter (\<lambda>sc. \<forall>k\<in>set kws.
                        (\<exists>p s. lower (name sc) = p @ lower k @ s) \<or>
                        (\<exists>p s. lower (projr (fetch_text sp sc)) = p @ lower k @ s))
                      (takeWhile (\<lambda>sc. \<not> isl (fetch_text sp sc)) (sort_key name scripts))))
           @ (if fst (main kws sp scripts) = None
                 \<and> filter (\<lambda>sc. \<forall>k\<in>set kws.
                        (\<exists>p s. lower (name sc) = p @ lower k @ s) \<or>
                        (\<exists>p s. lower (projr (fetch_text sp sc)) = p @ lower k @ s))
                      (takeWhile (\<lambda>sc. \<not> isl (fetch_text sp sc)) (sort_key name scripts)) = []
              then py_print [''No results found!''] else [])"
    by (simp add: main_state [OF assms] in_text_iff)
next
  assume ok: "\<forall>sc\<in>set scripts. \<not> isl (fetch_text sp sc)"
  then show "fst (main kws sp scripts) = None"
    by (simp add: main_completes_iff [OF assms])
  from ok show "matches (snd (main kws sp scripts)) =
              map name (filter (\<lambda>sc. \<forall>k\<in>set kws.
                        (\<exists>p s. lower (name sc) = p @ lower k @ s) \<or>
                        (\<exists>p s. lower (projr (fetch_text sp sc)) = p @ lower k @ s))
                      (sort_key name scripts))"
    by (simp add: main_state [OF assms] in_text_iff takeWhile_all)
qed

theorem reported_iff_found_and_reached_witness:
  "[[CHR 0xE9]] \<noteq> []
   \<and> \<not> isl (fetch_text False \<lparr>name = CHR 0xC9 # ''.py'', parsed = Inr None, help_print = Inr ''''\<rparr>)
   \<and> \<not> isl (fetch_text False \<lparr>name = ''a.py'', parsed = Inr (Some ''DTI map''), help_print = Inr ''usage''\<rparr>)
   \<and> main [[CHR 0xE9]] False
         [\<lparr>name = CHR 0xC9 # ''.py'', parsed = Inr None, help_print = Inr ''''\<rparr>,
          \<lparr>name = ''a.py'', parsed = Inr (Some ''DTI map''), help_print = Inr ''usage''\<rparr>]
       = (None,
          \<lparr>stdout = report [[CHR 0xE9]] (CHR 0xC9 # ''.py'') [], matches = [CHR 0xC9 # ''.py'']\<rparr>)
   \<and> [CHR 0xC9 # ''.py''] =
        map name (filter (\<lambda>sc. \<forall>k\<in>set [[CHR 0xE9]].
                        (\<exists>p s. lower (name sc) = p @ lower k @ s) \<or>
                        (\<exists>p s. lower (projr (fetch_text False sc)) = p @ lower k @ s))
          (sort_key name
             [\<lparr>name = CHR 0xC9 # ''.py'', parsed = Inr None, help_print = Inr ''''\<rparr>,
              \<lparr>name = ''a.py'', parsed = Inr (Some ''DTI map''), help_print = Inr ''usage''\<rparr>]))"
proof -
  let ?E = "\<lparr>name = CHR 0xC9 # ''.py'', parsed = Inr None, help_print = Inr ''''\<rparr>"
  let ?A = "\<lparr>name = ''a.py'', parsed = Inr (Some ''DTI map''), help_print = Inr ''usage''\<rparr>"
  have k: "[[CHR 0xE9]] \<noteq> []"
    by simp
  have e: "\<not> isl (fetch_text False ?E)" and a: "\<not> isl (fetch_text False ?A)"
    by (simp_all add: fetch_text_def get_docstring_def ast_get_docstring_def)
  then have ok: "\<forall>sc\<in>set [?E, ?A]. \<not> isl (fetch_text False sc)"
    by simp
  have ev: "main [[CHR 0xE9]] False [?E, ?A]
       = (None, \<lparr>stdout = report [[CHR 0xE9]] (CHR 0xC9 # ''.py'') [], matches = [CHR 0xC9 # ''.py'']\<rparr>)"
    by code_simp
  have "matches (snd (main [[CHR 0xE9]] False [?E, ?A])) =
        map name (filter (\<lambda>sc. \<forall>k\<in>set [[CHR 0xE9]].
                        (\<exists>p s. lower (name sc) = p @ lower k @ s) \<or>
                        (\<exists>p s. lower (projr (fetch_text False sc)) = p @ lower k @ s))
          (sort_key name [?E, ?A]))"
    using reported_iff_found_and_reached [OF k, of False "[?E, ?A]"] ok by blast
  then have f: "[CHR 0xC9 # ''.py''] =
        map name (filter (\<lambda>sc. \<forall>k\<in>set [[CHR 0xE9]].
                        (\<exists>p s. lower (name sc) = p @ lower k @ s) \<or>
                        (\<exists>p s. lower (projr (fetch_text False sc)) = p @ lower k @ s))
          (sort_key name [?E, ?A]))"
    unfolding ev by simp
  from k e a ev f show ?thesis
    by (intro conjI)
qed

text \<open>
  A script that contains the keyword but comes after a script that does not parse is not
  reported: the run ends at \<open>b.py\<close>, and \<open>c.py\<close>, whose docstring contains
  \<open>dti\<close>, is never examined.
\<close>

theorem matching_script_after_abort_not_reported:
  "fetch_text False \<lparr>name = ''c.py'', parsed = Inr (Some ''DTI map''), help_print = Inr ''''\<rparr> = Inr ''DTI map''
   \<and> lower ''DTI map'' = [] @ lower ''dti'' @ '' map''
   \<and> main [''dti''] False
         [\<lparr>name = ''a.py'', parsed = Inr None, help_print = Inr ''''\<rparr>,
          \<lparr>name = ''b.py'', parsed = Inl SyntaxError, help_print = Inr ''''\<rparr>,
          \<lparr>name = ''c.py'', parsed = Inr (Some ''DTI map''), help_print = Inr ''''\<rparr>]
       = (Some SyntaxError, \<lparr>stdout = [], matches = []\<rparr>)
   \<and> ''c.py'' \<notin> set (matches (snd (main [''dti''] False
         [\<lparr>name = ''a.py'', parsed = Inr None, help_print = Inr ''''\<rparr>,
          \<lparr>name = ''b.py'', parsed = Inl SyntaxError, help_print = Inr ''''\<rparr>,
          \<lparr>name = ''c.py'', parsed = Inr (Some ''DTI map''), help_print = Inr ''''\<rparr>])))"
  by code_simp

text \<open>
  C5 (amended). In a run in which every extraction returns and no script matches the
  keywords, the whole output is the single line \<open>No results found!\<close>. When at least
  one script matches, that line is not printed, in any run: the output consists of the
  blocks of the reported scripts and nothing else.
\<close>

theorem no_results_line:
  assumes "kws \<noteq> []"
  shows "((\<forall>sc\<in>set scripts. \<not> isl (fetch_text sp sc)
              \<and> \<not> test_matching_keywords kws [name sc, projr (fetch_text sp sc)]) \<longrightarrow>
            main kws sp scripts = (None, \<lparr>stdout = ''No results found!'' @ [NL], matches = []\<rparr>))
       \<and> ((\<exists>sc\<in>set scripts. \<not> isl (fetch_text sp sc)
              \<and> test_matching_keywords kws [name sc, projr (fetch_text sp sc)]) \<longrightarrow>
            stdout (snd (main kws sp scripts)) =
                concat (map (\<lambda>sc. report kws (name sc) (projr (fetch_text sp sc)))
                  (filter (\<lambda>sc. test_matching_keywords kws [name sc, projr (fetch_text sp sc)])
                     (takeWhile (\<lambda>sc. \<not> isl (fetch_text sp sc)) (sort_key name scripts)))))
       \<and> ((\<forall>sc\<in>set scripts. \<not> isl (fetch_text sp sc))
            \<and> (\<exists>sc\<in>set scripts. test_matching_keywords kws [name sc, projr (fetch_text sp sc)]) \<longrightarrow>
            matches (snd (main kws sp scripts)) \<noteq> []
            \<and> stdout (snd (main kws sp scripts)) =
                concat (map (\<lambda>sc. report kws (name sc) (projr (fetch_text sp sc)))
                  (filter (\<lambda>sc. test_matching_keywords kws [name sc, projr (fetch_text sp sc)])
                     (sort_key name scripts))))"
proof (intro conjI impI)
  assume none: "\<forall>sc\<in>set scripts. \<not> isl (fetch_text sp sc)
              \<and> \<not> test_matching_keywords kws [name sc, projr (fetch_text sp sc)]"
  then have ok: "\<forall>sc\<in>set scripts. \<not> isl (fetch_text sp sc)"
    by blast
  have "filter (\<lambda>sc. test_matching_keywords kws [name sc, projr (fetch_text sp sc)])
               (sort_key name scripts) = []"
    using none by (simp add: filter_empty_conv)
  then show "main kws sp scripts = (None, \<lparr>stdout = ''No results found!'' @ [NL], matches = []\<rparr>)"
    using main_complete [OF assms ok] by (simp add: py_print_def)
next
  assume "\<exists>sc\<in>set scripts. \<not> isl (fetch_text sp sc)
              \<and> test_matching_keywords kws [name sc, projr (fetch_text sp sc)]"
  then obtain sc where sc: "sc \<in> set scripts"
      "test_matching_keywords kws [name sc, projr (fetch_text sp sc)]"
    by blast
  have neg: "\<not> (fst (main kws sp scripts) = None
          \<and> filter (\<lambda>sc. test_matching_keywords kws [name sc, projr (fetch_text sp sc)])
               (takeWhile (\<lambda>sc. \<not> isl (fetch_text sp sc)) (sort_key name scripts)) = [])"
  proof
    assume c: "fst (main kws sp scripts) = None
          \<and> filter (\<lambda>sc. test_matching_keywords kws [name sc, projr (fetch_text sp sc)])
               (takeWhile (\<lambda>sc. \<not> isl (fetch_text sp sc)) (sort_key name scripts)) = []"
    then have "\<forall>x\<in>set scripts. \<not> isl (fetch_text sp x)"
      by (simp add: main_completes_iff [OF assms])
    then have "takeWhile (\<lambda>sc. \<not> isl (fetch_text sp sc)) (sort_key name scripts) = sort_key name scripts"
      by (intro takeWhile_all) simp
    with c have "filter (\<lambda>sc. test_matching_keywords kws [name sc, projr (fetch_text sp sc)])
               (sort_key name scripts) = []"
      by metis
    with sc show False
      by (simp add: filter_empty_conv)
  qed
  have "stdout (snd (main kws sp scripts)) =
         concat (map (\<lambda>sc. report kws (name sc) (projr (fetch_text sp sc)))
           (filter (\<lambda>sc. test_matching_keywords kws [name sc, projr (fetch_text sp sc)])
              (takeWhile (\<lambda>sc. \<not> isl (fetch_text sp sc)) (sort_key name scripts))))
         @ (if fst (main kws sp scripts) = None
               \<and> filter (\<lambda>sc. test_matching_keywords kws [name sc, projr (fetch_text sp sc)])
                    (takeWhile (\<lambda>sc. \<not> isl (fetch_text sp sc)) (sort_key name scripts)) = []
            then py_print [''No results found!''] else [])"
    by (subst main_state [OF assms]) simp
  then show "stdout (snd (main kws sp scripts)) =
                concat (map (\<lambda>sc. report kws (name sc) (projr (fetch_text sp sc)))
                  (filter (\<lambda>sc. test_matching_keywords kws [name sc, projr (fetch_text sp sc)])
                     (takeWhile (\<lambda>sc. \<not> isl (fetch_text sp sc)) (sort_key name scripts))))"
    by (simp only: if_not_P [OF neg] append_Nil2)
next
  assume h: "(\<forall>sc\<in>set scripts. \<not> isl (fetch_text sp sc))
            \<and> (\<exists>sc\<in>set scripts. test_matching_keywords kws [name sc, projr (fetch_text sp sc)])"
  then have ok: "\<forall>sc\<in>set scripts. \<not> isl (fetch_text sp sc)"
    by blast
  from h have ne: "filter (\<lambda>sc. test_matching_keywords kws [name sc, projr (fetch_text sp sc)])
               (sort_key name scripts) \<noteq> []"
    by (simp add: filter_empty_conv)
  then show "matches (snd (main kws sp scripts)) \<noteq> []"
    using main_complete [OF assms ok] by simp
  from ne show "stdout (snd (main kws sp scripts)) =
                concat (map (\<lambda>sc. report kws (name sc) (projr (fetch_text sp sc)))
                  (filter (\<lambda>sc. test_matching_keywords kws [name sc, projr (fetch_text sp sc)])
                     (sort_key name scripts)))"
    using main_complete [OF assms ok] by simp
qed

theorem no_results_line_witness:
  "[''zzz''] \<noteq> [] \<and> [''dti''] \<noteq> []
   \<and> \<not> isl (fetch_text False \<lparr>name = ''b.py'', parsed = Inr (Some ''DTI map''), help_print = Inr ''usage''\<rparr>)
   \<and> \<not> isl (fetch_text False \<lparr>name = ''a.py'', parsed = Inr None, help_print = Inr ''''\<rparr>)
   \<and> \<not> test_matching_keywords [''zzz'']
          [name \<lparr>name = ''b.py'', parsed = Inr (Some ''DTI map''), help_print = Inr ''usage''\<rparr>,
           projr (fetch_text False \<lparr>name = ''b.py'', parsed = Inr (Some ''DTI map''), help_print = Inr ''usage''\<rparr>)]
   \<and> \<not> test_matching_keywords [''zzz'']
          [name \<lparr>name = ''a.py'', parsed = Inr None, help_print = Inr ''''\<rparr>,
           projr (fetch_text False \<lparr>name = ''a.py'', parsed = Inr None, help_print = Inr ''''\<rparr>)]
   \<and> main [''zzz''] False
         [\<lparr>name = ''b.py'', parsed = Inr (Some ''DTI map''), help_print = Inr ''usage''\<rparr>,
          \<lparr>name = ''a.py'', parsed = Inr None, help_print = Inr ''''\<rparr>]
       = (None, \<lparr>stdout = ''No results found!'' @ [NL], matches = []\<rparr>)
   \<and> test_matching_keywords [''dti'']
          [name \<lparr>name = ''b.py'', parsed = Inr (Some ''DTI map''), help_print = Inr ''usage''\<rparr>,
           projr (fetch_text False \<lparr>name = ''b.py'', parsed = Inr (Some ''DTI map''), help_print = Inr ''usage''\<rparr>)]
   \<and> matches (snd (main [''dti''] False
         [\<lparr>name = ''b.py'', parsed = Inr (Some ''DTI map''), help_print = Inr ''usage''\<rparr>,
          \<lparr>name = ''a.py'', parsed = Inr None, help_print = Inr ''''\<rparr>])) \<noteq> []
   \<and> stdout (snd (main [''dti''] False
         [\<lparr>name = ''b.py'', parsed = Inr (Some ''DTI map''), help_print = Inr ''usage''\<rparr>,
          \<lparr>name = ''a.py'', parsed = Inr None, help_print = Inr ''''\<rparr>]))
       = report [''dti''] ''b.py'' ''DTI map''"
proof -
  let ?B = "\<lparr>name = ''b.py'', parsed = Inr (Some ''DTI map''), help_print = Inr ''usage''\<rparr>"
  let ?A = "\<lparr>name = ''a.py'', parsed = Inr None, help_print = Inr ''''\<rparr>"
  have k1: "[''zzz''] \<noteq> []" and k2: "[''dti''] \<noteq> []"
    by simp_all
  have b: "\<not> isl (fetch_text False ?B)" and a: "\<not> isl (fetch_text False ?A)"
    by (simp_all add: fetch_text_def get_docstring_def ast_get_docstring_def)
  have ok: "\<forall>sc\<in>set [?B, ?A]. \<not> isl (fetch_text False sc)"
    using a b by simp
  have nb: "\<not> test_matching_keywords [''zzz''] [name ?B, projr (fetch_text False ?B)]"
    by code_simp
  have na: "\<not> test_matching_keywords [''zzz''] [name ?A, projr (fetch_text False ?A)]"
    by code_simp
  have none: "\<forall>sc\<in>set [?B, ?A]. \<not> isl (fetch_text False sc)
      \<and> \<not> test_matching_keywords [''zzz''] [name sc, projr (fetch_text False sc)]"
    using a b na nb by simp
  have r1: "main [''zzz''] False [?B, ?A] = (None, \<lparr>stdout = ''No results found!'' @ [NL], matches = []\<rparr>)"
    using no_results_line [OF k1, where sp = False and scripts = "[?B, ?A]"] none by blast
  have yb: "test_matching_keywords [''dti''] [name ?B, projr (fetch_text False ?B)]"
    by code_simp
  then have some: "\<exists>sc\<in>set [?B, ?A]. test_matching_keywords [''dti''] [name sc, projr (fetch_text False sc)]"
    by simp
  have r2: "matches (snd (main [''dti''] False [?B, ?A])) \<noteq> []"
    using no_results_line [OF k2, where sp = False and scripts = "[?B, ?A]"] ok some by blast
  have r3: "stdout (snd (main [''dti''] False [?B, ?A])) = report [''dti''] ''b.py'' ''DTI map''"
    by code_simp
  from k1 k2 a b na nb r1 yb r2 r3 show ?thesis
    by (intro conjI)
qed

text \<open>
  A run in which no script matches and the only script does not parse prints nothing
  on standard output, not even the no-results line.
\<close>

theorem no_match_but_nothing_printed:
  "main [''zzz''] False [\<lparr>name = ''a.py'', parsed = Inl SyntaxError, help_print = Inr ''''\<rparr>]
     = (Some SyntaxError, \<lparr>stdout = [], matches = []\<rparr>)
   \<and> stdout (snd (main [''zzz''] False [\<lparr>name = ''a.py'', parsed = Inl SyntaxError, help_print = Inr ''''\<rparr>]))
       \<noteq> ''No results found!'' @ [NL]"
  by code_simp

text \<open>
  C4. In every run the reported scripts are the matching scripts reached by the scan, in
  the order of the listing sorted by file name: the recorded matches are sorted, the
  output is the concatenation of their blocks in that order, and another enumeration of
  the same directory gives the same result.
\<close>

theorem printed_in_sorted_order:
  assumes "kws \<noteq> []"
  shows "matches (snd (main kws sp scripts)) =
           map name (filter (\<lambda>sc. test_matching_keywords kws [name sc, projr (fetch_text sp sc)])
              (takeWhile (\<lambda>sc. \<not> isl (fetch_text sp sc)) (sort_key name scripts)))
       \<and> sorted (matches (snd (main kws sp scripts)))
       \<and> stdout (snd (main kws sp scripts)) =
           concat (map (\<lambda>sc. report kws (name sc) (projr (fetch_text sp sc)))
             (filter (\<lambda>sc. test_matching_keywords kws [name sc, projr (fetch_text sp sc)])
                (takeWhile (\<lambda>sc. \<not> isl (fetch_text sp sc)) (sort_key name scripts))))
           @ (if fst (main kws sp scripts) = None \<and> matches (snd (main kws sp scripts)) = []
              then py_print [''No results found!''] else [])
       \<and> (\<forall>enumerated. mset enumerated = mset scripts \<and> distinct (map name scripts) \<longrightarrow>
            main kws sp enumerated = main kws sp scripts)"
proof (intro conjI allI impI)
  let ?hits = "filter (\<lambda>sc. test_matching_keywords kws [name sc, projr (fetch_text sp sc)])
                 (takeWhile (\<lambda>sc. \<not> isl (fetch_text sp sc)) (sort_key name scripts))"
  show m: "matches (snd (main kws sp scripts)) = map name ?hits"
    by (simp add: main_state [OF assms])
  have "sorted_wrt (\<lambda>x y. name x \<le> name y) (sort_key name scripts)"
    using sorted_sort_key [of name scripts] by (simp add: sorted_map)
  then have "sorted_wrt (\<lambda>x y. name x \<le> name y) ?hits"
    by (intro sorted_wrt_filter sorted_wrt_takeWhile)
  then have "sorted (map name ?hits)"
    by (simp add: sorted_map)
  then show "sorted (matches (snd (main kws sp scripts)))"
    by (simp only: m)
  have e: "(matches (snd (main kws sp scripts)) = []) = (?hits = [])"
    by (simp only: m map_is_Nil_conv)
  show "stdout (snd (main kws sp scripts)) =
           concat (map (\<lambda>sc. report kws (name sc) (projr (fetch_text sp sc))) ?hits)
           @ (if fst (main kws sp scripts) = None \<and> matches (snd (main kws sp scripts)) = []
              then py_print [''No results found!''] else [])"
    unfolding e by (subst main_state [OF assms]) simp
next
  fix enumerated
  assume h: "mset enumerated = mset scripts \<and> distinct (map name scripts)"
  then have "inj_on name (set enumerated)"
    by (metis distinct_map set_mset_mset)
  then have "sort_key name enumerated = sort_key name scripts"
    using h by (intro sort_key_eq_sort_key) simp_all
  then show "main kws sp enumerated = main kws sp scripts"
    by (simp add: main_def)
qed

theorem printed_in_sorted_order_witness:
  "[''dti''] \<noteq> []
   \<and> matches (snd (main [''dti''] False
         [\<lparr>name = ''c.py'', parsed = Inr (Some ''DTI map''), help_print = Inr ''usage''\<rparr>,
          \<lparr>name = ''a.py'', parsed = Inr (Some ''dti metrics''), help_print = Inr ''usage''\<rparr>,
          \<lparr>name = ''b.py'', parsed = Inr None, help_print = Inr ''''\<rparr>])) = [''a.py'', ''c.py'']
   \<and> sorted [''a.py'', ''c.py'']
   \<and> stdout (snd (main [''dti''] False
         [\<lparr>name = ''c.py'', parsed = Inr (Some ''DTI map''), help_print = Inr ''usage''\<rparr>,
          \<lparr>name = ''a.py'', parsed = Inr (Some ''dti metrics''), help_print = Inr ''usage''\<rparr>,
          \<lparr>name = ''b.py'', parsed = Inr None, help_print = Inr ''''\<rparr>]))
       = report [''dti''] ''a.py'' ''dti metrics'' @ report [''dti''] ''c.py'' ''DTI map''
   \<and> mset [\<lparr>name = ''a.py'', parsed = Inr (Some ''dti metrics''), help_print = Inr ''usage''\<rparr>,
            \<lparr>name = ''b.py'', parsed = Inr None, help_print = Inr ''''\<rparr>,
            \<lparr>name = ''c.py'', parsed = Inr (Some ''DTI map''), help_print = Inr ''usage''\<rparr>]
       = mset [\<lparr>name = ''c.py'', parsed = Inr (Some ''DTI map''), help_print = Inr ''usage''\<rparr>,
               \<lparr>name = ''a.py'', parsed = Inr (Some ''dti metrics''), help_print = Inr ''usage''\<rparr>,
               \<lparr>name = ''b.py'', parsed = Inr None, help_print = Inr ''''\<rparr>]
   \<and> distinct (map name
         [\<lparr>name = ''c.py'', parsed = Inr (Some ''DTI map''), help_print = Inr ''usage''\<rparr>,
          \<lparr>name = ''a.py'', parsed = Inr (Some ''dti metrics''), help_print = Inr ''usage''\<rparr>,
          \<lparr>name = ''b.py'', parsed = Inr None, help_print = Inr ''''\<rparr>])
   \<and> main [''dti''] False
         [\<lparr>name = ''a.py'', parsed = Inr (Some ''dti metrics''), help_print = Inr ''usage''\<rparr>,
          \<lparr>name = ''b.py'', parsed = Inr None, help_print = Inr ''''\<rparr>,
          \<lparr>name = ''c.py'', parsed = Inr (Some ''DTI map''), help_print = Inr ''usage''\<rparr>]
     = main [''dti''] False
         [\<lparr>name = ''c.py'', parsed = Inr (Some ''DTI map''), help_print = Inr ''usage''\<rparr>,
          \<lparr>name = ''a.py'', parsed = Inr (Some ''dti metrics''), help_print = Inr ''usage''\<rparr>,
          \<lparr>name = ''b.py'', parsed = Inr None, help_print = Inr ''''\<rparr>]"
proof -
  let ?C = "\<lparr>name = ''c.py'', parsed = Inr (Some ''DTI map''), help_print = Inr ''usage''\<rparr>"
  let ?A = "\<lparr>name = ''a.py'', parsed = Inr (Some ''dti metrics''), help_print = Inr ''usage''\<rparr>"
  let ?B = "\<lparr>name = ''b.py'', parsed = Inr None, help_print = Inr ''''\<rparr>"
  have k: "[''dti''] \<noteq> []"
    by simp
  have m: "matches (snd (main [''dti''] False [?C, ?A, ?B])) = [''a.py'', ''c.py'']"
    by code_simp
  have s: "sorted [''a.py'', ''c.py'']"
    using printed_in_sorted_order [OF k, of False "[?C, ?A, ?B]"] unfolding m by blast
  have o: "stdout (snd (main [''dti''] False [?C, ?A, ?B]))
       = report [''dti''] ''a.py'' ''dti metrics'' @ report [''dti''] ''c.py'' ''DTI map''"
    by code_simp
  have p: "mset [?A, ?B, ?C] = mset [?C, ?A, ?B]"
    by (simp add: add_mset_commute)
  have d: "distinct (map name [?C, ?A, ?B])"
    by simp
  have e: "main [''dti''] False [?A, ?B, ?C] = main [''dti''] False [?C, ?A, ?B]"
    using printed_in_sorted_order [OF k, of False "[?C, ?A, ?B]"] p d by blast
  from k m s o p d e show ?thesis
    by (intro conjI)
qed








section \<open>Cleaning of the docstring\<close>

lemma expandtabs_out_no_tab: "CHR 0x09 \<notin> set (expandtabs col d)"
  by (induction d arbitrary: col) auto

lemma split_lines_not_Nil: "split_lines s \<noteq> []"
  by (induction s) (auto split: list.splits)

lemma split_lines_chars: "l \<in> set (split_lines s) \<Longrightarrow> set l \<subseteq> set s - {NL}"
proof (induction s arbitrary: l)
  case Nil
  then show ?case by simp
next
  case (Cons c cs)
  show ?case
  proof (cases "c = NL")
    case True
    with Cons show ?thesis by auto
  next
    case False
    obtain k ks where ks: "split_lines cs = k # ks"
      using split_lines_not_Nil by (cases "split_lines cs") auto
    with False Cons.prems have "l = c # k \<or> l \<in> set ks"
      by simp
    then show ?thesis
    proof
      assume "l = c # k"
      moreover have "set k \<subseteq> set cs - {NL}"
        using Cons.IH [of k] ks by simp
      ultimately show ?thesis
        using False by auto
    next
      assume "l \<in> set ks"
      then have "set l \<subseteq> set cs - {NL}"
        using Cons.IH [of l] ks by simp
      then show ?thesis by auto
    qed
  qed
qed

lemma split_lines_append:
  "NL \<notin> set a \<Longrightarrow> split_lines (a @ NL # b) = a # split_lines b"
  by (induction a) auto

lemma set_pop_trailing: "set (pop_trailing ls) \<subseteq> set ls"
  by (induction ls) (auto split: list.splits if_splits)

lemma pop_trailing_last: "pop_trailing ls \<noteq> [] \<Longrightarrow> last (pop_trailing ls) \<noteq> []"
  by (induction ls) (auto split: list.splits if_splits)

lemma pop_trailing_keep: "ls \<noteq> [] \<Longrightarrow> last ls \<noteq> [] \<Longrightarrow> pop_trailing ls = ls"
  by (induction ls) (auto split: list.splits if_splits)

lemma set_join: "set (join sep ls) \<subseteq> set sep \<union> \<Union> (set ` set ls)"
  by (induction sep ls rule: join.induct) auto

lemma hd_join: "ls \<noteq> [] \<Longrightarrow> hd ls \<noteq> [] \<Longrightarrow> hd (join sep ls) = hd (hd ls)"
  by (induction sep ls rule: join.induct) auto

lemma last_join:
  "ls \<noteq> [] \<Longrightarrow> last ls \<noteq> [] \<Longrightarrow> join sep ls \<noteq> [] \<and> last (join sep ls) = last (last ls)"
  by (induction sep ls rule: join.induct) auto


lemma cleandoc_no_tab: "CHR 0x09 \<notin> set (cleandoc d)"
proof -
  obtain first rest where sl: "split_lines (expandtabs 0 d) = first # rest"
    using split_lines_not_Nil by (cases "split_lines (expandtabs 0 d)") auto
  define rest' where "rest' = (case find_margin rest None of None \<Rightarrow> rest | Some m \<Rightarrow> map (drop m) rest)"
  have lines: "l \<in> set (first # rest) \<Longrightarrow> CHR 0x09 \<notin> set l" for l
    using split_lines_chars [of l "expandtabs 0 d"] expandtabs_out_no_tab [of 0 d] sl by auto
  have "l \<in> set (lstrip first # rest') \<Longrightarrow> CHR 0x09 \<notin> set l" for l
  proof -
    assume "l \<in> set (lstrip first # rest')"
    then consider "l = lstrip first" | "l \<in> set rest" | m r where "r \<in> set rest" "l = drop m r"
      by (auto simp: rest'_def split: option.splits)
    then show ?thesis
    proof cases
      case 1
      then show ?thesis
        using lines [of first] set_dropWhileD [of "CHR 0x09" isspace first] by (auto simp: lstrip_def)
    next
      case 2
      then show ?thesis using lines by simp
    next
      case 3
      then show ?thesis
        using lines [of r] in_set_dropD [of "CHR 0x09" m r] by auto
    qed
  qed
  then have X: "\<forall>l\<in>set (lstrip first # rest'). CHR 0x09 \<notin> set l"
    by blast
  define ls where "ls = dropWhile (\<lambda>l. l = []) (pop_trailing (lstrip first # rest'))"
  have "set ls \<subseteq> set (pop_trailing (lstrip first # rest'))"
    unfolding ls_def by (rule subsetI) (rule set_dropWhileD)
  also have "\<dots> \<subseteq> set (lstrip first # rest')"
    by (rule set_pop_trailing)
  finally have ls: "\<forall>l\<in>set ls. CHR 0x09 \<notin> set l"
    using X by blast
  have cd: "cleandoc d = join [NL] ls"
    by (simp add: cleandoc_def sl rest'_def ls_def Let_def)
  show ?thesis
  proof
    assume "CHR 0x09 \<in> set (cleandoc d)"
    then have "CHR 0x09 \<in> set [NL] \<union> \<Union> (set ` set ls)"
      unfolding cd using set_join [of "[NL]" ls] by (rule rev_subsetD)
    then have "\<exists>l\<in>set ls. CHR 0x09 \<in> set l"
      by (simp add: NL_def)
    with ls show False
      by blast
  qed
qed

lemma cleandoc_edges:
  assumes "cleandoc d \<noteq> []"
  shows "hd (cleandoc d) \<noteq> NL \<and> last (cleandoc d) \<noteq> NL"
proof -
  obtain first rest where sl: "split_lines (expandtabs 0 d) = first # rest"
    using split_lines_not_Nil by (cases "split_lines (expandtabs 0 d)") auto
  define rest' where "rest' = (case find_margin rest None of None \<Rightarrow> rest | Some m \<Rightarrow> map (drop m) rest)"
  have lines: "l \<in> set (first # rest) \<Longrightarrow> NL \<notin> set l" for l
    using split_lines_chars [of l "expandtabs 0 d"] sl by auto
  have "l \<in> set (lstrip first # rest') \<Longrightarrow> NL \<notin> set l" for l
  proof -
    assume "l \<in> set (lstrip first # rest')"
    then consider "l = lstrip first" | "l \<in> set rest" | m r where "r \<in> set rest" "l = drop m r"
      by (auto simp: rest'_def split: option.splits)
    then show ?thesis
    proof cases
      case 1
      then show ?thesis
        using lines [of first] set_dropWhileD [of NL isspace first] by (auto simp: lstrip_def)
    next
      case 2
      then show ?thesis using lines by simp
    next
      case 3
      then show ?thesis
        using lines [of r] in_set_dropD [of NL m r] by auto
    qed
  qed
  then have X: "\<forall>l\<in>set (lstrip first # rest'). NL \<notin> set l"
    by blast
  define pt where "pt = pop_trailing (lstrip first # rest')"
  define ls where "ls = dropWhile (\<lambda>l. l = []) pt"
  have "set ls \<subseteq> set pt"
    unfolding ls_def by (rule subsetI) (rule set_dropWhileD)
  also have "\<dots> \<subseteq> set (lstrip first # rest')"
    unfolding pt_def by (rule set_pop_trailing)
  finally have ls: "\<forall>l\<in>set ls. NL \<notin> set l"
    using X by blast
  have cd: "cleandoc d = join [NL] ls"
    by (simp add: cleandoc_def sl rest'_def ls_def pt_def Let_def)
  have ne: "ls \<noteq> []"
    using assms unfolding cd by auto
  then have hdne: "hd ls \<noteq> []"
    unfolding ls_def using hd_dropWhile [of "\<lambda>l. l = []" pt] by simp
  have "pt \<noteq> []"
    using ne unfolding ls_def by auto
  then have "last pt \<noteq> []"
    unfolding pt_def by (rule pop_trailing_last)
  moreover have "last ls = last pt"
  proof -
    have "pt = takeWhile (\<lambda>l. l = []) pt @ ls"
      unfolding ls_def by simp
    then show ?thesis
      using ne by (metis last_appendR)
  qed
  ultimately have lastne: "last ls \<noteq> []"
    by simp
  have "hd (cleandoc d) = hd (hd ls)"
    unfolding cd using ne hdne by (rule hd_join)
  moreover have "hd (hd ls) \<in> set (hd ls)" "hd ls \<in> set ls"
    using ne hdne by simp_all
  ultimately have a: "hd (cleandoc d) \<noteq> NL"
    using ls by metis
  have "last (cleandoc d) = last (last ls)"
    unfolding cd using last_join [OF ne lastne] by simp
  moreover have "last (last ls) \<in> set (last ls)" "last ls \<in> set ls"
    using ne lastne by simp_all
  ultimately have b: "last (cleandoc d) \<noteq> NL"
    using ls by metis
  from a b show ?thesis ..
qed

lemma cleandoc_one_line_lstrip:
  assumes "CHR 0x09 \<notin> set d" and "NL \<notin> set d"
  shows "cleandoc d = lstrip d"
  using assms by (cases "lstrip d = []") (simp_all add: cleandoc_def expandtabs_no_tab split_lines_no_newline)

lemma lstrip_indent: "text_line l \<Longrightarrow> lstrip (replicate n CHR '' '' @ l) = l"
proof -
  assume t: "text_line l"
  have "dropWhile isspace (replicate n CHR '' '' @ l) = dropWhile isspace l"
    by (rule dropWhile_append2) (simp add: isspace_def)
  also have "\<dots> = l"
    using t by (cases l) (simp_all add: text_line_def)
  finally show ?thesis
    by (simp add: lstrip_def)
qed

lemma lstrip_text_line: "text_line l \<Longrightarrow> lstrip l = l"
  using lstrip_indent [of l 0] by simp

lemma cleandoc_indented:
  assumes "text_line l0" and "text_line l1" and "text_line l2"
  shows "cleandoc (l0 @ NL # replicate n CHR '' '' @ l1 @ NL # replicate (n + k) CHR '' '' @ l2)
         = l0 @ NL # l1 @ NL # replicate k CHR '' '' @ l2"
proof -
  let ?d = "l0 @ NL # replicate n CHR '' '' @ l1 @ NL # replicate (n + k) CHR '' '' @ l2"
  have nt: "CHR 0x09 \<notin> set ?d"
    using assms by (auto simp: text_line_def NL_def)
  have nl: "NL \<notin> set l0" "NL \<notin> set (replicate n CHR '' '' @ l1)"
      "NL \<notin> set (replicate (n + k) CHR '' '' @ l2)"
    using assms by (auto simp: text_line_def NL_def)
  have et: "expandtabs 0 ?d = ?d"
    using nt by (rule expandtabs_no_tab)
  have s2: "split_lines (replicate (n + k) CHR '' '' @ l2) = [replicate (n + k) CHR '' '' @ l2]"
    using nl(3) by (rule split_lines_no_newline)
  have s1: "split_lines (replicate n CHR '' '' @ l1 @ NL # replicate (n + k) CHR '' '' @ l2)
      = (replicate n CHR '' '' @ l1) # [replicate (n + k) CHR '' '' @ l2]"
    using split_lines_append [OF nl(2), of "replicate (n + k) CHR '' '' @ l2"] s2 by simp
  have "split_lines ?d = l0 # split_lines (replicate n CHR '' '' @ l1 @ NL # replicate (n + k) CHR '' '' @ l2)"
    using nl(1) by (rule split_lines_append)
  then have sl: "split_lines (expandtabs 0 ?d)
      = [l0, replicate n CHR '' '' @ l1, replicate (n + k) CHR '' '' @ l2]"
    by (simp only: et s1)
  have ne: "l0 \<noteq> []" "l1 \<noteq> []" "l2 \<noteq> []"
    using assms by (simp_all add: text_line_def)
  have L0: "lstrip l0 = l0"
    using assms(1) by (rule lstrip_text_line)
  have L1: "lstrip (replicate n CHR '' '' @ l1) = l1"
    using assms(2) by (rule lstrip_indent)
  have L2: "lstrip (replicate (n + k) CHR '' '' @ l2) = l2"
    using assms(3) by (rule lstrip_indent)
  have fm: "find_margin [replicate n CHR '' '' @ l1, replicate (n + k) CHR '' '' @ l2] None = Some n"
    using ne by (simp add: L1 L2 Let_def)
  have dr: "map (drop n) [replicate n CHR '' '' @ l1, replicate (n + k) CHR '' '' @ l2]
      = [l1, replicate k CHR '' '' @ l2]"
    by (simp add: replicate_add)
  have pt: "pop_trailing [l0, l1, replicate k CHR '' '' @ l2] = [l0, l1, replicate k CHR '' '' @ l2]"
    using ne by (intro pop_trailing_keep) simp_all
  have "cleandoc ?d = join [NL] (dropWhile (\<lambda>l. l = []) (pop_trailing [l0, l1, replicate k CHR '' '' @ l2]))"
    by (simp only: cleandoc_def sl list.case fm option.case Let_def L0 dr)
  then show ?thesis
    using ne by (simp add: pt)
qed

lemma cleandoc_own_lines:
  assumes "text_line l1" and "text_line l2"
  shows "cleandoc (NL # l1 @ NL # l2 @ [NL]) = l1 @ NL # l2"
proof -
  let ?d = "NL # l1 @ NL # l2 @ [NL]"
  have nt: "CHR 0x09 \<notin> set ?d"
    using assms by (auto simp: text_line_def NL_def)
  have nl: "NL \<notin> set l1" "NL \<notin> set l2"
    using assms by (auto simp: text_line_def)
  have et: "expandtabs 0 ?d = ?d"
    using nt by (rule expandtabs_no_tab)
  have s2: "split_lines (l2 @ [NL]) = [l2, []]"
    using split_lines_append [OF nl(2), of "[]"] by simp
  have s1: "split_lines (l1 @ NL # l2 @ [NL]) = [l1, l2, []]"
    using split_lines_append [OF nl(1), of "l2 @ [NL]"] s2 by simp
  have "split_lines ?d = [] # split_lines (l1 @ NL # l2 @ [NL])"
    by simp
  then have sl: "split_lines (expandtabs 0 ?d) = [[], l1, l2, []]"
    by (simp only: et s1)
  have ne: "l1 \<noteq> []" "l2 \<noteq> []"
    using assms by (simp_all add: text_line_def)
  have L0: "lstrip [] = []"
    by (simp add: lstrip_def)
  have L1: "lstrip l1 = l1"
    using assms(1) by (rule lstrip_text_line)
  have L2: "lstrip l2 = l2"
    using assms(2) by (rule lstrip_text_line)
  have fm: "find_margin [l1, l2, []] None = Some 0"
    using ne by (simp add: L0 L1 L2 Let_def)
  have dr: "map (drop 0) [l1, l2, []] = [l1, l2, []]"
    by simp
  have pt: "pop_trailing [[], l1, l2, []] = [[], l1, l2]"
    using ne by simp
  have "cleandoc ?d = join [NL] (dropWhile (\<lambda>l. l = []) (pop_trailing [[], l1, l2, []]))"
    by (simp only: cleandoc_def sl list.case fm option.case Let_def L0 dr)
  then show ?thesis
    using ne by (simp add: pt)
qed

lemma expandtabs_keeps_lines: "NL \<notin> set d \<Longrightarrow> NL \<notin> set (expandtabs col d)"
  by (induction d arbitrary: col) (auto simp: NL_def)

lemma cleandoc_single_line:
  assumes "NL \<notin> set d"
  shows "cleandoc d = lstrip (expandtabs 0 d)"
proof -
  have "split_lines (expandtabs 0 d) = [expandtabs 0 d]"
    using assms by (intro split_lines_no_newline expandtabs_keeps_lines)
  then show ?thesis
    by (cases "lstrip (expandtabs 0 d) = []") (simp_all add: cleandoc_def)
qed

lemma expandtabs_one_tab:
  assumes "CHR 0x09 \<notin> set l" and "NL \<notin> set l" and "CHR 0x0D \<notin> set l" and "CHR 0x09 \<notin> set l'"
  shows "expandtabs col (l @ CHR 0x09 # l') = l @ replicate (8 - (col + length l) mod 8) CHR '' '' @ l'"
  using assms(1-3)
proof (induction l arbitrary: col)
  case Nil
  show ?case
    using assms(4) by (simp add: expandtabs_no_tab)
next
  case (Cons c l)
  then have "expandtabs (col + 1) (l @ CHR 0x09 # l')
      = l @ replicate (8 - (col + 1 + length l) mod 8) CHR '' '' @ l'"
    by (intro Cons.IH) simp_all
  moreover have "c \<noteq> CHR 0x09" "c \<noteq> NL" "c \<noteq> CHR 0x0D"
    using Cons.prems by auto
  ultimately show ?case
    by simp
qed

lemma lstrip_spaces: "list_all isspace ws \<Longrightarrow> text_line l \<Longrightarrow> lstrip (ws @ l) = l"
proof -
  assume w: "list_all isspace ws" and t: "text_line l"
  have "dropWhile isspace (ws @ l) = dropWhile isspace l"
    using w by (intro dropWhile_append2) (simp add: list_all_iff)
  also have "\<dots> = l"
    using t by (cases l) (simp_all add: text_line_def)
  finally show ?thesis
    by (simp add: lstrip_def)
qed

text \<open>
  C3 (amended). In fast mode an exception of reading or parsing is passed on; a module
  without a leading string constant gives the empty string; a module with one gives that
  string cleaned by \<open>ast.get_docstring\<close>, not verbatim: tabs are expanded, the white
  space at the start of the first line is removed, the indentation common to the other
  lines is removed from them, and the empty lines at the start and at the end are
  removed. The string is returned verbatim when it has no tab, no newline and no leading
  white space.
\<close>

theorem get_docstring_cleaned:
  "get_docstring (Inl e) = Inl e
   \<and> get_docstring (Inr None) = Inr []
   \<and> get_docstring (Inr (Some d)) = Inr (cleandoc d)
   \<and> CHR 0x09 \<notin> set (cleandoc d)
   \<and> (cleandoc d \<noteq> [] \<longrightarrow> hd (cleandoc d) \<noteq> NL \<and> last (cleandoc d) \<noteq> NL)
   \<and> (CHR 0x09 \<notin> set d \<and> NL \<notin> set d \<and> lstrip d = d \<longrightarrow> get_docstring (Inr (Some d)) = Inr d)
   \<and> (list_all isspace ws \<and> CHR 0x09 \<notin> set ws \<and> NL \<notin> set ws \<and> text_line l \<longrightarrow>
        get_docstring (Inr (Some (ws @ l))) = Inr l)
   \<and> (text_line l \<and> CHR 0x0D \<notin> set l \<and> text_line l' \<longrightarrow>
        get_docstring (Inr (Some (l @ CHR 0x09 # l')))
          = Inr (l @ replicate (8 - length l mod 8) CHR '' '' @ l'))
   \<and> (text_line l0 \<and> text_line l1 \<and> text_line l2 \<longrightarrow>
        get_docstring (Inr (Some (l0 @ NL # replicate n CHR '' '' @ l1
                                     @ NL # replicate (n + k) CHR '' '' @ l2)))
          = Inr (l0 @ NL # l1 @ NL # replicate k CHR '' '' @ l2))
   \<and> (text_line l1 \<and> text_line l2 \<longrightarrow>
        get_docstring (Inr (Some (NL # l1 @ NL # l2 @ [NL]))) = Inr (l1 @ NL # l2))"
proof (intro conjI impI)
  show "get_docstring (Inl e) = Inl e" "get_docstring (Inr None) = Inr []"
    by (simp_all add: get_docstring_def ast_get_docstring_def)
  show g: "get_docstring (Inr (Some d)) = Inr (cleandoc d)" for d
    by (simp add: get_docstring_def ast_get_docstring_def)
  show "CHR 0x09 \<notin> set (cleandoc d)"
    by (rule cleandoc_no_tab)
  show "hd (cleandoc d) \<noteq> NL" "last (cleandoc d) \<noteq> NL" if "cleandoc d \<noteq> []"
    using cleandoc_edges [OF that] by simp_all
  show "get_docstring (Inr (Some d)) = Inr d"
    if "CHR 0x09 \<notin> set d \<and> NL \<notin> set d \<and> lstrip d = d"
    using that by (simp add: g cleandoc_one_line)
  show "get_docstring (Inr (Some (ws @ l))) = Inr l"
    if h: "list_all isspace ws \<and> CHR 0x09 \<notin> set ws \<and> NL \<notin> set ws \<and> text_line l"
  proof -
    have "CHR 0x09 \<notin> set (ws @ l)" "NL \<notin> set (ws @ l)"
      using h by (simp_all add: text_line_def)
    then have "cleandoc (ws @ l) = lstrip (ws @ l)"
      by (rule cleandoc_one_line_lstrip)
    then show ?thesis
      using h by (simp add: g lstrip_spaces)
  qed
  show "get_docstring (Inr (Some (l @ CHR 0x09 # l'))) = Inr (l @ replicate (8 - length l mod 8) CHR '' '' @ l')"
    if h: "text_line l \<and> CHR 0x0D \<notin> set l \<and> text_line l'"
  proof -
    have e: "expandtabs 0 (l @ CHR 0x09 # l') = l @ replicate (8 - length l mod 8) CHR '' '' @ l'"
      using h expandtabs_one_tab [of l l' 0] by (simp add: text_line_def)
    have "NL \<notin> set (l @ CHR 0x09 # l')"
      using h by (simp add: text_line_def NL_def)
    then have "cleandoc (l @ CHR 0x09 # l') = lstrip (expandtabs 0 (l @ CHR 0x09 # l'))"
      by (rule cleandoc_single_line)
    also have "\<dots> = l @ replicate (8 - length l mod 8) CHR '' '' @ l'"
      unfolding e using h by (cases l) (simp_all add: lstrip_def text_line_def)
    finally show ?thesis
      by (simp add: g)
  qed
  show "get_docstring (Inr (Some (l0 @ NL # replicate n CHR '' '' @ l1
                                     @ NL # replicate (n + k) CHR '' '' @ l2)))
          = Inr (l0 @ NL # l1 @ NL # replicate k CHR '' '' @ l2)"
    if "text_line l0 \<and> text_line l1 \<and> text_line l2"
    using that by (simp add: g cleandoc_indented)
  show "get_docstring (Inr (Some (NL # l1 @ NL # l2 @ [NL]))) = Inr (l1 @ NL # l2)"
    if "text_line l1 \<and> text_line l2"
    using that by (simp add: g cleandoc_own_lines)
qed

text \<open>
  A docstring written on its own lines, between the quotes, is not returned verbatim:
  the newlines after the opening and before the closing quotes are removed.
\<close>

theorem get_docstring_not_verbatim:
  "get_docstring (Inr (Some (NL # ''Search keywords.'' @ [NL]))) = Inr ''Search keywords.''
   \<and> get_docstring (Inr (Some (NL # ''Search keywords.'' @ [NL]))) \<noteq> Inr (NL # ''Search keywords.'' @ [NL])"
  by code_simp

theorem get_docstring_cleaned_witness:
  "CHR 0x09 \<notin> set ''Apply NLMeans denoising.''
   \<and> NL \<notin> set ''Apply NLMeans denoising.''
   \<and> lstrip ''Apply NLMeans denoising.'' = ''Apply NLMeans denoising.''
   \<and> get_docstring (Inr (Some ''Apply NLMeans denoising.'')) = Inr ''Apply NLMeans denoising.''
   \<and> cleandoc (NL # ''Search keywords.'' @ [NL]) \<noteq> []
   \<and> hd (cleandoc (NL # ''Search keywords.'' @ [NL])) \<noteq> NL
   \<and> last (cleandoc (NL # ''Search keywords.'' @ [NL])) \<noteq> NL
   \<and> list_all isspace [CHR 0xA0] \<and> CHR 0x09 \<notin> set [CHR 0xA0] \<and> NL \<notin> set [CHR 0xA0]
   \<and> text_line ''Hello''
   \<and> get_docstring (Inr (Some ([CHR 0xA0] @ ''Hello''))) = Inr ''Hello''
   \<and> text_line ''ab'' \<and> CHR 0x0D \<notin> set ''ab'' \<and> text_line ''c''
   \<and> get_docstring (Inr (Some (''ab'' @ CHR 0x09 # ''c'')))
       = Inr (''ab'' @ replicate (8 - length ''ab'' mod 8) CHR '' '' @ ''c'')
   \<and> text_line ''Title'' \<and> text_line ''one'' \<and> text_line ''two''
   \<and> get_docstring (Inr (Some (''Title'' @ NL # replicate 4 CHR '' '' @ ''one''
                                  @ NL # replicate (4 + 2) CHR '' '' @ ''two'')))
       = Inr (''Title'' @ NL # ''one'' @ NL # replicate 2 CHR '' '' @ ''two'')
   \<and> get_docstring (Inr (Some (NL # ''one'' @ NL # ''two'' @ [NL]))) = Inr (''one'' @ NL # ''two'')"
proof -
  have v1: "CHR 0x09 \<notin> set ''Apply NLMeans denoising.''"
    by simp
  have v2: "NL \<notin> set ''Apply NLMeans denoising.''"
    by (simp add: NL_def)
  have v3: "lstrip ''Apply NLMeans denoising.'' = ''Apply NLMeans denoising.''"
    by (simp add: lstrip_def isspace_def)
  have v: "get_docstring (Inr (Some ''Apply NLMeans denoising.'')) = Inr ''Apply NLMeans denoising.''"
    using get_docstring_cleaned [where d = "''Apply NLMeans denoising.''"] v1 v2 v3 by blast
  have e1: "cleandoc (NL # ''Search keywords.'' @ [NL]) \<noteq> []"
    by code_simp
  have e: "hd (cleandoc (NL # ''Search keywords.'' @ [NL])) \<noteq> NL
      \<and> last (cleandoc (NL # ''Search keywords.'' @ [NL])) \<noteq> NL"
    using get_docstring_cleaned [where d = "NL # ''Search keywords.'' @ [NL]"] e1 by blast
  have w1: "list_all isspace [CHR 0xA0]" and w2: "CHR 0x09 \<notin> set [CHR 0xA0]"
    and w3: "NL \<notin> set [CHR 0xA0]"
    by (simp_all add: isspace_def NL_def)
  have t1: "text_line ''Hello''" and t2: "text_line ''ab''" and t3: "text_line ''c''"
    and t4: "text_line ''Title''" and t5: "text_line ''one''" and t6: "text_line ''two''"
    by (simp_all add: text_line_def isspace_def NL_def)
  have w: "get_docstring (Inr (Some ([CHR 0xA0] @ ''Hello''))) = Inr ''Hello''"
    using get_docstring_cleaned [where ws = "[CHR 0xA0]" and l = "''Hello''"] w1 w2 w3 t1 by blast
  have c1: "CHR 0x0D \<notin> set ''ab''"
    by simp
  have x: "get_docstring (Inr (Some (''ab'' @ CHR 0x09 # ''c'')))
       = Inr (''ab'' @ replicate (8 - length ''ab'' mod 8) CHR '' '' @ ''c'')"
    using get_docstring_cleaned [where l = "''ab''" and l' = "''c''"] t2 c1 t3 by blast
  have i: "get_docstring (Inr (Some (''Title'' @ NL # replicate 4 CHR '' '' @ ''one''
                                  @ NL # replicate (4 + 2) CHR '' '' @ ''two'')))
       = Inr (''Title'' @ NL # ''one'' @ NL # replicate 2 CHR '' '' @ ''two'')"
    using get_docstring_cleaned [where ?l0.0 = "''Title''" and ?l1.0 = "''one''" and ?l2.0 = "''two''"
        and n = 4 and k = 2] t4 t5 t6 by blast
  have o: "get_docstring (Inr (Some (NL # ''one'' @ NL # ''two'' @ [NL]))) = Inr (''one'' @ NL # ''two'')"
    using get_docstring_cleaned [where ?l1.0 = "''one''" and ?l2.0 = "''two''"] t5 t6 by blast
  from v1 v2 v3 v e1 e w1 w2 w3 t1 w t2 c1 t3 x t4 t5 t6 i o show ?thesis
    by blast
qed

section \<open>One substitution\<close>





end
